theory Spec2Isabelle
  imports Main "HOL-Library.Sublist"
begin

section \<open>Python string primitives used by the assembler\<close>

text \<open>
  A Python \<open>str\<close> is modelled as a \<open>string\<close> (a list of characters); a character stands
  for a code point below 256. Every exception the assembler can raise from its own
  code is a \<open>ValueError\<close> (a failed \<open>int(...)\<close> or a failed tuple unpacking).
\<close>

datatype error = ValueError

text \<open>\<open>str.isspace\<close> on one code point below 256.\<close>

definition py_isspace :: "char \<Rightarrow> bool" where
  "py_isspace c = (of_char c \<in> {9, 10, 11, 12, 13, 28, 29, 30, 31, 32, 133, 160 :: nat})"

text \<open>\<open>s.lstrip()\<close>, \<open>s.rstrip()\<close>, \<open>s.strip()\<close> without argument.\<close>

definition lstrip :: "string \<Rightarrow> string" where
  "lstrip s = dropWhile py_isspace s"

definition rstrip :: "string \<Rightarrow> string" where
  "rstrip s = rev (dropWhile py_isspace (rev s))"

definition strip :: "string \<Rightarrow> string" where
  "strip s = rstrip (lstrip s)"

text \<open>\<open>s.lstrip(c)\<close> and \<open>s.rstrip(c)\<close> for a one-character argument.\<close>

definition lstrip_char :: "char \<Rightarrow> string \<Rightarrow> string" where
  "lstrip_char c s = dropWhile (\<lambda>x. x = c) s"

definition rstrip_char :: "char \<Rightarrow> string \<Rightarrow> string" where
  "rstrip_char c s = rev (dropWhile (\<lambda>x. x = c) (rev s))"

text \<open>\<open>s.split(c)\<close> for a one-character separator: never the empty list.\<close>

fun split_char :: "char \<Rightarrow> string \<Rightarrow> string list" where
  "split_char sep [] = [[]]"
| "split_char sep (c # cs) =
     (if c = sep then [] # split_char sep cs
      else (let r = split_char sep cs in (c # hd r) # tl r))"

text \<open>\<open>s.split(sep)[0]\<close> for a non-empty separator string: the text before the first \<open>sep\<close>.\<close>

fun before_sep :: "string \<Rightarrow> string \<Rightarrow> string" where
  "before_sep sep [] = []"
| "before_sep sep (c # cs) = (if prefix sep (c # cs) then [] else c # before_sep sep cs)"

text \<open>\<open>sub in s\<close> on strings.\<close>

fun contains :: "string \<Rightarrow> string \<Rightarrow> bool" where
  "contains sub [] = (sub = [])"
| "contains sub (c # cs) = (prefix sub (c # cs) \<or> contains sub cs)"

text \<open>\<open>s.replace("0b", "")\<close>: every non-overlapping occurrence, left to right.\<close>

fun replace_0b :: "string \<Rightarrow> string" where
  "replace_0b (c # d # cs) =
     (if c = CHR ''0'' \<and> d = CHR ''b'' then replace_0b cs else c # replace_0b (d # cs))"
| "replace_0b cs = cs"

text \<open>
  \<open>s.zfill(width)\<close>: zeros are inserted on the left, after a leading sign character
  if there is one; a string already \<open>width\<close> long or longer is returned unchanged.
\<close>

definition zfill :: "nat \<Rightarrow> string \<Rightarrow> string" where
  "zfill width s =
     (if width \<le> length s then s
      else (let pad = replicate (width - length s) (CHR ''0'')
            in (case s of
                  [] \<Rightarrow> pad
                | c # cs \<Rightarrow> if c = CHR ''+'' \<or> c = CHR ''-'' then c # pad @ cs else pad @ s)))"

subsection \<open>Integers and their renderings\<close>

text \<open>Digits of a natural number in a base, most significant first; \<open>0\<close> is \<open>[0]\<close>.\<close>

fun digits_of :: "nat \<Rightarrow> nat \<Rightarrow> nat list" where
  "digits_of b n = (if b < 2 \<or> n < b then [n] else digits_of b (n div b) @ [n mod b])"

declare digits_of.simps [simp del]

definition bin_char :: "nat \<Rightarrow> char" where
  "bin_char d = (if d = 0 then CHR ''0'' else CHR ''1'')"

definition bin_digits :: "nat \<Rightarrow> string" where
  "bin_digits n = map bin_char (digits_of 2 n)"

text \<open>\<open>bin(v)\<close>: \<open>"0b101"\<close>, \<open>"-0b101"\<close>, \<open>"0b0"\<close>.\<close>

definition py_bin :: "int \<Rightarrow> string" where
  "py_bin v = (if v < 0 then ''-'' else []) @ ''0b'' @ bin_digits (nat \<bar>v\<bar>)"

definition digit_val :: "char \<Rightarrow> nat" where
  "digit_val c = of_char c - 48"

definition is_digit :: "nat \<Rightarrow> char \<Rightarrow> bool" where
  "is_digit b c = (48 \<le> (of_char c :: nat) \<and> of_char c < 48 + b)"

text \<open>The value of a digit string (Horner), for digits already checked.\<close>

definition digits_value :: "nat \<Rightarrow> string \<Rightarrow> nat" where
  "digits_value b ds = foldl (\<lambda>acc c. acc * b + digit_val c) 0 ds"

text \<open>
  The body of a literal after sign and prefix: digits of the base, single underscores
  allowed between digits only.
\<close>

fun digits_ok :: "nat \<Rightarrow> string \<Rightarrow> bool" where
  "digits_ok b [] = False"
| "digits_ok b [c] = is_digit b c"
| "digits_ok b (c # d # cs) =
     (is_digit b c \<and>
      (if d = CHR ''_'' then digits_ok b cs else digits_ok b (d # cs)))"

text \<open>The interpreter's default limit on the digits of a decimal literal given to \<open>int\<close>.\<close>

definition int_max_str_digits :: nat where
  "int_max_str_digits = 4300"

text \<open>
  The whitespace that \<open>int\<close> skips around a literal: the ASCII whitespace and the two
  non-ASCII spaces below 256. Unlike \<open>str.strip\<close> it does not skip the separators
  \<open>0x1C\<close> to \<open>0x1F\<close>.
\<close>

definition int_isspace :: "char \<Rightarrow> bool" where
  "int_isspace c = (of_char c \<in> {9, 10, 11, 12, 13, 32, 133, 160 :: nat})"

definition int_strip :: "string \<Rightarrow> string" where
  "int_strip s = rev (dropWhile int_isspace (rev (dropWhile int_isspace s)))"

text \<open>
  \<open>int(s)\<close> (base 10) and \<open>int(s, 2)\<close>: surrounding whitespace is dropped, then an
  optional sign, for base 2 an optional \<open>0b\<close>/\<open>0B\<close> prefix (which may be followed by
  one underscore), then the digits. \<open>None\<close> is the \<open>ValueError\<close>.
\<close>

definition strip_prefix2 :: "string \<Rightarrow> string" where
  "strip_prefix2 s =
     (case s of
        c # d # cs \<Rightarrow>
          if c = CHR ''0'' \<and> (d = CHR ''b'' \<or> d = CHR ''B'')
          then (case cs of e # es \<Rightarrow> if e = CHR ''_'' then es else cs | [] \<Rightarrow> cs)
          else s
      | _ \<Rightarrow> s)"

definition py_int_base :: "nat \<Rightarrow> string \<Rightarrow> int option" where
  "py_int_base b s =
     (let t = int_strip s;
          neg = (t \<noteq> [] \<and> hd t = CHR ''-'');
          u = (if t \<noteq> [] \<and> (hd t = CHR ''+'' \<or> hd t = CHR ''-'') then tl t else t);
          w = (if b = 2 then strip_prefix2 u else u);
          ds = filter (\<lambda>c. c \<noteq> CHR ''_'') w
      in if \<not> digits_ok b w then None
         else if b = 10 \<and> int_max_str_digits < length ds then None
         else Some ((if neg then - 1 else 1) * int (digits_value b ds)))"

definition py_int :: "string \<Rightarrow> int option" where
  "py_int s = py_int_base 10 s"

section \<open>The assembler\<close>

subsection \<open>\<open>Assembler.populate\<close>\<close>

text \<open>
  \<^verbatim>\<open>sequence = sequence.lstrip('-').zfill(span)\<close>
  \<^verbatim>\<open>return '1' + sequence[1:] if sequence.startswith('-') else sequence\<close>
  The test reads the variable after it has been reassigned.
\<close>

definition populate :: "string \<Rightarrow> nat \<Rightarrow> string" where
  "populate sequence span =
     (let sequence' = zfill span (lstrip_char (CHR ''-'') sequence)
      in if prefix ''-'' sequence' then CHR ''1'' # drop 1 sequence' else sequence')"

text \<open>\<open>self.populate(bin(int(tok)).replace("0b", ""), 7)\<close>, the field of one integer token.\<close>

definition encode_field :: "string \<Rightarrow> error + string" where
  "encode_field tok =
     (case py_int tok of
        None \<Rightarrow> Inl ValueError
      | Some v \<Rightarrow> Inr (populate (replace_0b (py_bin v)) 7))"

subsection \<open>\<open>Assembler.calculate\<close>\<close>

text \<open>One pass of the loop body: the text appended to \<open>instruction_binary\<close> for \<open>op\<close>.\<close>

definition encode_operand :: "string \<Rightarrow> error + string" where
  "encode_operand op =
     (if CHR ''('' \<in> set op \<and> CHR '')'' \<in> set op then
        (let reg_offset = hd (split_char (CHR ''('') op);
             offset = rstrip_char (CHR '')'') (split_char (CHR ''('') op ! 1)
         in case encode_field reg_offset of
              Inl e \<Rightarrow> Inl e
            | Inr reg_binary \<Rightarrow>
                (case encode_field offset of
                   Inl e \<Rightarrow> Inl e
                 | Inr offset_binary \<Rightarrow> Inr (reg_binary @ offset_binary)))
      else encode_field op)"

text \<open>The loop \<open>for op in operation[1:]\<close>, with \<open>instruction_binary\<close> as accumulator.\<close>

fun calculate_loop :: "string \<Rightarrow> string list \<Rightarrow> error + string" where
  "calculate_loop instruction_binary [] = Inr instruction_binary"
| "calculate_loop instruction_binary (op # ops) =
     (case encode_operand op of
        Inl e \<Rightarrow> Inl e
      | Inr field \<Rightarrow> calculate_loop (instruction_binary @ field) ops)"

definition calculate :: "string \<Rightarrow> string list \<Rightarrow> error + string" where
  "calculate operation_code operation =
     (case calculate_loop operation_code (drop 1 operation) of
        Inl e \<Rightarrow> Inl e
      | Inr instruction_binary \<Rightarrow> Inr (zfill 32 instruction_binary))"

subsection \<open>\<open>Assembler.import_map\<close>\<close>

type_synonym opcode_dict = "string \<rightharpoonup> string"

text \<open>
  The body of the loop over the instruction list: the key and the value that one line
  stores. The tuple assignment raises \<open>ValueError\<close> unless the stripped line has
  exactly one tab.
\<close>

definition parse_definition :: "string \<Rightarrow> error + (string \<times> string)" where
  "parse_definition text_line =
     (case split_char (CHR 0x09) (strip text_line) of
        [operation, operation_code] \<Rightarrow>
          Inr (hd (split_char (CHR '' '') operation), strip operation_code)
      | _ \<Rightarrow> Inl ValueError)"

fun import_loop :: "opcode_dict \<Rightarrow> string list \<Rightarrow> error + opcode_dict" where
  "import_loop d [] = Inr d"
| "import_loop d (text_line # rest) =
     (case parse_definition text_line of
        Inl e \<Rightarrow> Inl e
      | Inr (mnemonic, operation_code) \<Rightarrow> import_loop (d(mnemonic \<mapsto> operation_code)) rest)"

text \<open>The file is given as the list of its lines; the dictionary starts empty.\<close>

definition import_map :: "string list \<Rightarrow> error + opcode_dict" where
  "import_map instruction_list = import_loop Map.empty instruction_list"

subsection \<open>The object and its constructor\<close>

text \<open>
  \<open>log_severity\<close> holds whatever the caller passes as \<open>debug\<close>: the command line passes
  a \<open>bool\<close> (\<open>action='store_true'\<close>), the loop compares it with the \<open>int\<close> 2.
\<close>

datatype pyval = PyBool bool | PyInt int

fun py_eq :: "pyval \<Rightarrow> pyval \<Rightarrow> bool" where
  "py_eq (PyBool a) (PyBool b) = (a = b)"
| "py_eq (PyInt a) (PyInt b) = (a = b)"
| "py_eq (PyBool a) (PyInt b) = ((if a then 1 else 0) = b)"
| "py_eq (PyInt a) (PyBool b) = (a = (if b then 1 else 0))"

record assembler =
  instruction_to_opcode_dict :: opcode_dict
  log_severity :: pyval

definition init :: "string list \<Rightarrow> pyval \<Rightarrow> error + assembler" where
  "init instruction_list debug =
     (case import_map instruction_list of
        Inl e \<Rightarrow> Inl e
      | Inr d \<Rightarrow> Inr \<lparr>instruction_to_opcode_dict = d, log_severity = debug\<rparr>)"

subsection \<open>\<open>Assembler.interpret_line\<close>\<close>

definition interpret_line :: "string \<Rightarrow> string list" where
  "interpret_line text_line =
     split_char (CHR '' '') (strip (before_sep ''//'' (strip text_line)))"

subsection \<open>\<open>Assembler.interpret_input\<close>\<close>

text \<open>\<open>d.get(k, default)\<close>.\<close>

definition dict_get :: "opcode_dict \<Rightarrow> string \<Rightarrow> string \<Rightarrow> string" where
  "dict_get d k dflt = (case d k of None \<Rightarrow> dflt | Some v \<Rightarrow> v)"

definition hex_char :: "nat \<Rightarrow> char" where
  "hex_char d = ''0123456789ABCDEF'' ! d"

text \<open>\<open>'0x{0:0{1}X}'.format(n, 8)\<close>: upper-case hexadecimal, sign-aware zero fill to 8.\<close>

definition format_hex :: "int \<Rightarrow> string" where
  "format_hex n =
     ''0x'' @ zfill 8 ((if n < 0 then ''-'' else []) @ map hex_char (digits_of 16 (nat \<bar>n\<bar>)))"

text \<open>
  The two files written by the loop, each as the list of the strings written to it;
  both are opened with mode \<open>'w'\<close>, so they start empty.
\<close>

record files =
  output_file :: "string list"
  data_object :: "string list"

text \<open>
  The loop over the source lines. The result is the files as written and \<open>None\<close> when
  the loop ends (end of input or \<open>break\<close>), \<open>Some e\<close> when an exception leaves it.
\<close>

fun interpret_loop :: "assembler \<Rightarrow> files \<Rightarrow> string list \<Rightarrow> files \<times> error option" where
  "interpret_loop self fs [] = (fs, None)"
| "interpret_loop self fs (text_line # rest) =
     (let operation = interpret_line text_line;
          mnemonic = hd operation
      in if contains ''stop'' mnemonic then (fs, None)
         else
           (let operation_code =
                  dict_get (instruction_to_opcode_dict self) mnemonic ''00000000000''
            in case calculate operation_code operation of
                 Inl e \<Rightarrow> (fs, Some e)
               | Inr binary \<Rightarrow>
                   (let fs1 = fs\<lparr>output_file := output_file fs @ [binary @ [CHR 0x0A]]\<rparr>
                    in if py_eq (log_severity self) (PyInt 2) then
                         (case py_int_base 2 binary of
                            None \<Rightarrow> (fs1, Some ValueError)
                          | Some n \<Rightarrow>
                              interpret_loop self
                                (fs1\<lparr>data_object := data_object fs1 @
                                   [binary @ [CHR 0x09] @ format_hex n @ [CHR 0x09] @ text_line]\<rparr>)
                                rest)
                       else
                         interpret_loop self
                           (fs1\<lparr>data_object := data_object fs1 @
                              [binary @ [CHR 0x09] @ text_line]\<rparr>)
                           rest)))"

definition interpret_input :: "assembler \<Rightarrow> string list \<Rightarrow> files \<times> error option" where
  "interpret_input self source =
     interpret_loop self \<lparr>output_file = [], data_object = []\<rparr> source"

subsection \<open>The script\<close>

text \<open>
  \<open>args.debug\<close> is \<open>True\<close> with \<open>--debug\<close> and \<open>False\<close> without. An exception in the
  constructor leaves before any file is opened for writing.
\<close>

definition main :: "bool \<Rightarrow> string list \<Rightarrow> string list \<Rightarrow> error + (files \<times> error option)" where
  "main debug instruction_list source =
     (case init instruction_list (PyBool debug) of
        Inl e \<Rightarrow> Inl e
      | Inr assembler \<Rightarrow> Inr (interpret_input assembler source))"

section \<open>Vocabulary of the properties\<close>

text \<open>A token that \<open>int\<close> accepts.\<close>

definition is_int_literal :: "string \<Rightarrow> bool" where
  "is_int_literal tok = (py_int tok \<noteq> None)"

text \<open>
  The indexed form \<open>R(O)\<close> as the specification describes it: an integer literal, an
  opening parenthesis, an integer literal, a closing parenthesis, and nothing else.
\<close>

definition is_indexed_form :: "string \<Rightarrow> bool" where
  "is_indexed_form tok =
     (let R = takeWhile (\<lambda>c. c \<noteq> CHR ''('') tok;
          rest = drop 1 (dropWhile (\<lambda>c. c \<noteq> CHR ''('') tok)
      in CHR ''('' \<in> set tok \<and> rest \<noteq> [] \<and> last rest = CHR '')'' \<and>
         is_int_literal R \<and> is_int_literal (butlast rest))"

text \<open>
  The tokens the indexed branch of \<open>calculate\<close> takes without raising: both parentheses
  occur somewhere, the text before the first \<open>(\<close> is an integer literal, and so is the
  text after it up to the next \<open>(\<close>, once its trailing \<open>)\<close> are removed.
\<close>

definition accepted_indexed :: "string \<Rightarrow> bool" where
  "accepted_indexed tok =
     (CHR ''('' \<in> set tok \<and> CHR '')'' \<in> set tok \<and>
      is_int_literal (hd (split_char (CHR ''('') tok)) \<and>
      is_int_literal (rstrip_char (CHR '')'') (split_char (CHR ''('') tok ! 1)))"

text \<open>A source line that is empty or holds only a comment, once stripped.\<close>

definition blank_line :: "string \<Rightarrow> bool" where
  "blank_line text_line = (strip text_line = [] \<or> prefix ''//'' (strip text_line))"

section \<open>Properties\<close>

subsection \<open>Facts about the string primitives\<close>

lemma rstrip_append_nonspace:
  "\<not> py_isspace k \<Longrightarrow> rstrip (a @ k # b) = a @ k # rstrip b"
proof -
  assume k: "\<not> py_isspace k"
  show ?thesis
  proof (cases "\<forall>c \<in> set b. py_isspace c")
    case True
    with k show ?thesis by (simp add: rstrip_def dropWhile_append)
  next
    case False
    then show ?thesis by (auto simp: rstrip_def dropWhile_append)
  qed
qed

lemma rstrip_append_spaces:
  "\<forall>c \<in> set ws. py_isspace c \<Longrightarrow> rstrip (s @ ws) = rstrip s"
  by (simp add: rstrip_def dropWhile_append)

lemma lstrip_nonspace: "\<not> py_isspace c \<Longrightarrow> lstrip (c # s) = c # s"
  by (simp add: lstrip_def)

lemma lstrip_spaces_append:
  "\<forall>c \<in> set ws. py_isspace c \<Longrightarrow> lstrip (ws @ s) = lstrip s"
  by (simp add: lstrip_def dropWhile_append)

lemma lstrip_Nil [simp]: "lstrip [] = []" by (simp add: lstrip_def)
lemma rstrip_Nil [simp]: "rstrip [] = []" by (simp add: rstrip_def)
lemma strip_Nil [simp]: "strip [] = []" by (simp add: strip_def)

lemma hd_lstrip: "lstrip s \<noteq> [] \<Longrightarrow> \<not> py_isspace (hd (lstrip s))"
  unfolding lstrip_def by (rule hd_dropWhile)

lemma rstrip_Cons_nonspace: "\<not> py_isspace c \<Longrightarrow> rstrip (c # s) = c # rstrip s"
  using rstrip_append_nonspace [of c "[]" s] by simp

lemma hd_strip: "strip s \<noteq> [] \<Longrightarrow> \<not> py_isspace (hd (strip s))"
proof -
  assume n: "strip s \<noteq> []"
  then have l: "lstrip s \<noteq> []" by (auto simp: strip_def)
  then obtain c cs where e: "lstrip s = c # cs" by (cases "lstrip s") auto
  with hd_lstrip [OF l] have c: "\<not> py_isspace c" by simp
  then show ?thesis by (simp add: strip_def e rstrip_Cons_nonspace)
qed

lemma strip_fixed:
  assumes "strip s = s"
  shows "lstrip s = s" and "rstrip s = s"
proof -
  have "length (rstrip (lstrip s)) \<le> length (lstrip s)"
    by (simp add: rstrip_def length_dropWhile_le [of _ "rev (lstrip s)", simplified])
  moreover have "length (lstrip s) \<le> length s"
    by (simp add: lstrip_def length_dropWhile_le)
  ultimately have "length (lstrip s) = length s" using assms by (simp add: strip_def)
  moreover have "takeWhile py_isspace s @ lstrip s = s" by (simp add: lstrip_def)
  ultimately have "takeWhile py_isspace s = []"
    by (metis append_eq_conv_conj length_0_conv length_append add_cancel_right_left add.commute
        append_self_conv2 length_drop diff_self_eq_0)
  then show "lstrip s = s" by (metis \<open>takeWhile py_isspace s @ lstrip s = s\<close> append_Nil)
  with assms show "rstrip s = s" by (simp add: strip_def)
qed

lemma split_char_nonempty [simp]: "split_char sep s \<noteq> []"
  by (induction s) (auto simp: Let_def)

lemma split_char_none: "sep \<notin> set s \<Longrightarrow> split_char sep s = [s]"
  by (induction s) (auto simp: Let_def)

lemma split_char_first:
  "sep \<notin> set a \<Longrightarrow> split_char sep (a @ sep # b) = a # split_char sep b"
  by (induction a) (auto simp: Let_def)

lemma hd_split_char: "hd (split_char sep s) = takeWhile (\<lambda>c. c \<noteq> sep) s"
  by (induction s) (auto simp: Let_def)

lemma rstrip_char_snoc: "rstrip_char c (s @ [c]) = rstrip_char c s"
  by (simp add: rstrip_char_def)

lemma rstrip_char_id: "s = [] \<or> last s \<noteq> c \<Longrightarrow> rstrip_char c s = s"
  by (cases s rule: rev_cases) (auto simp: rstrip_char_def)

lemma contains_length: "contains sep s \<Longrightarrow> length sep \<le> length s"
  by (induction s) (auto dest: prefix_length_le)

lemma before_sep_contains_append:
  "contains sep s \<Longrightarrow> before_sep sep (s @ x) = before_sep sep s"
proof (induction s)
  case Nil
  then show ?case by (cases x) auto
next
  case (Cons c s)
  show ?case
  proof (cases "prefix sep (c # s)")
    case True
    then have "prefix sep (c # s @ x)" by (metis append_Cons prefix_prefix)
    with True show ?thesis by simp
  next
    case False
    with Cons.prems have cs: "contains sep s" by simp
    have "\<not> prefix sep (c # s @ x)"
    proof
      assume "prefix sep (c # s @ x)"
      then have "prefix sep ((c # s) @ x)" by simp
      moreover have "prefix (c # s) ((c # s) @ x)" by simp
      moreover from contains_length [OF cs] have "length sep \<le> length (c # s)" by simp
      ultimately have "prefix sep (c # s)" by (rule prefix_length_prefix)
      with False show False ..
    qed
    with False Cons.IH [OF cs] show ?thesis by simp
  qed
qed

lemma before_sep_absent: "\<not> contains sep s \<Longrightarrow> before_sep sep s = s"
  by (induction s) auto

lemma before_comment_at_end:
  "\<not> contains ''//'' y \<Longrightarrow> y = [] \<or> last y \<noteq> CHR ''/'' \<Longrightarrow>
   before_sep ''//'' (y @ ''//'' @ z) = y"
proof (induction y)
  case Nil
  then show ?case by simp
next
  case (Cons c y)
  show ?case
  proof (cases y)
    case Nil
    with Cons.prems show ?thesis by simp
  next
    case (Cons d ds)
    with Cons.prems Cons.IH show ?thesis by auto
  qed
qed

lemma contains_comment_append:
  "CHR ''/'' \<notin> set ws \<Longrightarrow> contains ''//'' (s @ ws) = contains ''//'' s"
proof (induction s)
  case Nil
  then show ?case by (induction ws) auto
next
  case (Cons c s)
  then show ?case by (cases s; cases ws) auto
qed

lemma slash_not_space: "\<not> py_isspace (CHR ''/'')"
  by (simp add: py_isspace_def)

subsection \<open>Facts about fields\<close>

lemma length_zfill: "length (zfill n s) = max n (length s)"
  by (auto simp: zfill_def Let_def split: list.splits)

lemma zfill_long: "n \<le> length s \<Longrightarrow> zfill n s = s"
  by (simp add: zfill_def)

lemma zfill_unsigned:
  "\<not> prefix ''-'' s \<Longrightarrow> \<not> prefix ''+'' s \<Longrightarrow>
   zfill n s = replicate (n - length s) (CHR ''0'') @ s"
  by (auto simp: zfill_def Let_def split: list.splits)

lemma set_zfill: "set (zfill n s) \<subseteq> insert (CHR ''0'') (set s)"
  by (auto simp: zfill_def Let_def split: list.splits)

lemma replace_0b_id: "CHR ''b'' \<notin> set s \<Longrightarrow> replace_0b s = s"
  by (induction s rule: replace_0b.induct) auto

lemma digits_of_nonempty: "digits_of b n \<noteq> []"
  by (subst digits_of.simps) simp

lemma length_digits_of_2: "n < 2 ^ k \<Longrightarrow> 0 < k \<Longrightarrow> length (digits_of 2 n) \<le> k"
proof (induction k arbitrary: n)
  case 0
  then show ?case by simp
next
  case (Suc k)
  show ?case
  proof (cases "n < 2")
    case True
    then show ?thesis by (subst digits_of.simps) simp
  next
    case False
    with Suc.prems have k: "0 < k" by (cases k) auto
    from Suc.prems have "n div 2 < 2 ^ k" by auto
    from Suc.IH [OF this k] False show ?thesis by (subst digits_of.simps) simp
  qed
qed

lemma set_bin_digits: "set (bin_digits n) \<subseteq> {CHR ''0'', CHR ''1''}"
  by (auto simp: bin_digits_def bin_char_def)

lemma bin_digits_nonempty: "bin_digits n \<noteq> []"
  by (simp add: bin_digits_def digits_of_nonempty)

lemma length_bin_digits: "n < 2 ^ k \<Longrightarrow> 0 < k \<Longrightarrow> length (bin_digits n) \<le> k"
  by (simp add: bin_digits_def length_digits_of_2)

lemma replace_0b_py_bin:
  "replace_0b (py_bin v) = (if v < 0 then ''-'' else []) @ bin_digits (nat \<bar>v\<bar>)"
proof -
  define bs where "bs = bin_digits (nat \<bar>v\<bar>)"
  have "CHR ''b'' \<notin> set bs" using set_bin_digits [of "nat \<bar>v\<bar>"] by (auto simp: bs_def)
  then have "replace_0b bs = bs" by (rule replace_0b_id)
  then show ?thesis unfolding py_bin_def bs_def [symmetric] by simp
qed

lemma populate_bin:
  "populate (replace_0b (py_bin v)) n =
   replicate (n - length (bin_digits (nat \<bar>v\<bar>))) (CHR ''0'') @ bin_digits (nat \<bar>v\<bar>)"
proof -
  define bs where "bs = bin_digits (nat \<bar>v\<bar>)"
  obtain c cs where b: "bs = c # cs"
    using bin_digits_nonempty [of "nat \<bar>v\<bar>"] by (cases bs) (auto simp: bs_def)
  with set_bin_digits [of "nat \<bar>v\<bar>"] have c: "c = CHR ''0'' \<or> c = CHR ''1''"
    by (auto simp: bs_def)
  then have l: "lstrip_char (CHR ''-'') ((if v < 0 then ''-'' else []) @ bs) = bs"
    by (auto simp: lstrip_char_def b)
  from c have z: "zfill n bs = replicate (n - length bs) (CHR ''0'') @ bs"
    by (intro zfill_unsigned) (auto simp: b)
  have "\<not> prefix ''-'' (replicate (n - length bs) (CHR ''0'') @ bs)"
    using c by (cases "n - length bs") (auto simp: b)
  with l z show ?thesis
    unfolding populate_def replace_0b_py_bin bs_def [symmetric] by (simp add: Let_def)
qed

lemma encode_field_Some:
  "py_int tok = Some v \<Longrightarrow>
   encode_field tok =
     Inr (replicate (7 - length (bin_digits (nat \<bar>v\<bar>))) (CHR ''0'') @ bin_digits (nat \<bar>v\<bar>))"
  by (simp add: encode_field_def populate_bin)

subsection \<open>Facts about literals and operands\<close>

lemma mem_dropWhile: "x \<in> set xs \<Longrightarrow> P x \<or> x \<in> set (dropWhile P xs)"
  by (induction xs) auto

lemma mem_int_strip: "c \<in> set s \<Longrightarrow> int_isspace c \<or> c \<in> set (int_strip s)"
proof -
  assume "c \<in> set s"
  then have "int_isspace c \<or> c \<in> set (rev (dropWhile int_isspace s))"
    using mem_dropWhile [of c s int_isspace] by simp
  then show ?thesis
    unfolding int_strip_def
    using mem_dropWhile [of c "rev (dropWhile int_isspace s)" int_isspace] by auto
qed

lemma digits_ok_chars: "digits_ok b w \<Longrightarrow> c \<in> set w \<Longrightarrow> is_digit b c \<or> c = CHR ''_''"
  by (induction b w rule: digits_ok.induct) (auto split: if_splits)

lemma py_int_chars:
  assumes "py_int s = Some v" and "c \<in> set s"
  shows "int_isspace c \<or> c = CHR ''+'' \<or> c = CHR ''-'' \<or> c = CHR ''_'' \<or> is_digit 10 c"
proof -
  define t where "t = int_strip s"
  define u where "u = (if t \<noteq> [] \<and> (hd t = CHR ''+'' \<or> hd t = CHR ''-'') then tl t else t)"
  from assms(1) have ok: "digits_ok 10 u"
    unfolding py_int_def py_int_base_def Let_def t_def [symmetric] u_def [symmetric]
    by (simp split: if_splits)
  from mem_int_strip [OF assms(2)] have "int_isspace c \<or> c \<in> set t" by (simp add: t_def)
  moreover have "c \<in> set t \<Longrightarrow> c = CHR ''+'' \<or> c = CHR ''-'' \<or> c \<in> set u"
    unfolding u_def by (cases t) auto
  ultimately show ?thesis using digits_ok_chars [OF ok, of c] by blast
qed

lemma py_int_no_paren:
  assumes "py_int s = Some v"
  shows "CHR ''('' \<notin> set s" and "CHR '')'' \<notin> set s"
  using py_int_chars [OF assms, of "CHR ''(''"] py_int_chars [OF assms, of "CHR '')''"]
  by (auto simp: int_isspace_def is_digit_def)

lemma py_int_nonempty: "py_int s = Some v \<Longrightarrow> s \<noteq> []"
  by (auto simp: py_int_def py_int_base_def int_strip_def Let_def)

lemma encode_operand_plain: "py_int tok = Some v \<Longrightarrow> encode_operand tok = encode_field tok"
  using py_int_no_paren(1) [of tok v] by (simp add: encode_operand_def)

lemma encode_field_Inr:
  "encode_field tok = Inr f \<Longrightarrow>
   \<exists>v. py_int tok = Some v \<and>
       f = replicate (7 - length (bin_digits (nat \<bar>v\<bar>))) (CHR ''0'') @ bin_digits (nat \<bar>v\<bar>)"
  by (cases "py_int tok") (auto simp: encode_field_def populate_bin)

lemma encode_field_binary:
  assumes "encode_field tok = Inr f"
  shows "set f \<subseteq> {CHR ''0'', CHR ''1''}" and "7 \<le> length f"
proof -
  from encode_field_Inr [OF assms] obtain v where
    f: "f = replicate (7 - length (bin_digits (nat \<bar>v\<bar>))) (CHR ''0'') @ bin_digits (nat \<bar>v\<bar>)"
    by blast
  show "set f \<subseteq> {CHR ''0'', CHR ''1''}"
    using set_bin_digits [of "nat \<bar>v\<bar>"] unfolding f by auto
  show "7 \<le> length f" unfolding f by simp
qed

lemma encode_operand_binary:
  assumes "encode_operand tok = Inr f"
  shows "set f \<subseteq> {CHR ''0'', CHR ''1''}"
proof (cases "CHR ''('' \<in> set tok \<and> CHR '')'' \<in> set tok")
  case True
  with assms obtain a b where
    "encode_field (hd (split_char (CHR ''('') tok)) = Inr a"
    "encode_field (rstrip_char (CHR '')'') (split_char (CHR ''('') tok ! 1)) = Inr b"
    "f = a @ b"
    by (auto simp: encode_operand_def Let_def split: sum.splits)
  with encode_field_binary(1) [of _ a] encode_field_binary(1) [of _ b] show ?thesis
    by (metis Un_least set_append)
next
  case False
  with assms have "encode_field tok = Inr f" by (auto simp: encode_operand_def)
  then show ?thesis by (rule encode_field_binary)
qed

lemma error_is_ValueError: "(e :: error) = ValueError"
  by (cases e) simp

lemma encode_operand_fails_iff:
  "encode_operand tok = Inl ValueError \<longleftrightarrow> \<not> is_int_literal tok \<and> \<not> accepted_indexed tok"
proof (cases "CHR ''('' \<in> set tok \<and> CHR '')'' \<in> set tok")
  case True
  then have "\<not> is_int_literal tok"
    using py_int_no_paren(1) [of tok] by (cases "py_int tok") (auto simp: is_int_literal_def)
  with True show ?thesis
    by (auto simp: encode_operand_def accepted_indexed_def is_int_literal_def encode_field_def Let_def
        split: sum.splits option.splits)
next
  case False
  then show ?thesis
    by (auto simp: encode_operand_def accepted_indexed_def is_int_literal_def encode_field_def
        split: option.splits)
qed

lemma calculate_loop_Inr:
  "calculate_loop acc ops = Inr w \<longleftrightarrow>
   (\<exists>fields. list_all2 (\<lambda>op f. encode_operand op = Inr f) ops fields \<and> w = acc @ concat fields)"
  by (induction ops arbitrary: acc) (auto simp: list_all2_Cons1 split: sum.splits)

lemma calculate_loop_Inl:
  "calculate_loop acc ops = Inl ValueError \<longleftrightarrow> (\<exists>op \<in> set ops. encode_operand op = Inl ValueError)"
proof (induction ops arbitrary: acc)
  case Nil
  then show ?case by simp
next
  case (Cons op ops)
  show ?case
  proof (cases "encode_operand op")
    case (Inl e)
    then show ?thesis by (simp add: error_is_ValueError [of e])
  next
    case (Inr f)
    with Cons.IH [of "acc @ f"] show ?thesis by simp
  qed
qed
lemma concat_fields_binary:
  "list_all2 (\<lambda>op f. encode_operand op = Inr f) ops flds \<Longrightarrow>
   set (concat flds) \<subseteq> {CHR ''0'', CHR ''1''}"
  by (induction ops flds rule: list_all2_induct) (auto dest: encode_operand_binary)

lemma encode_operand_literal:
  assumes "is_int_literal op"
  shows "\<exists>v. py_int op = Some v \<and>
    encode_operand op =
      Inr (replicate (7 - length (bin_digits (nat \<bar>v\<bar>))) (CHR ''0'') @ bin_digits (nat \<bar>v\<bar>))"
proof -
  from assms obtain v where v: "py_int op = Some v" by (auto simp: is_int_literal_def)
  with encode_operand_plain [OF v] encode_field_Some [OF v] show ?thesis by simp
qed

lemma small_field_length:
  assumes "\<bar>v\<bar> < 128"
  shows "length (replicate (7 - length (bin_digits (nat \<bar>v\<bar>))) (CHR ''0'') @ bin_digits (nat \<bar>v\<bar>)) = 7"
proof -
  from assms have "nat \<bar>v\<bar> < 2 ^ 7" by simp
  then have "length (bin_digits (nat \<bar>v\<bar>)) \<le> 7" by (rule length_bin_digits) simp
  then show ?thesis by simp
qed

lemma length_concat_sevens:
  "\<forall>f \<in> set flds. length f = 7 \<Longrightarrow> length (concat flds) = 7 * length flds"
  by (induction flds) auto

lemma binary_unsigned:
  assumes "set s \<subseteq> {CHR ''0'', CHR ''1''}"
  shows "\<not> prefix ''-'' s" and "\<not> prefix ''+'' s"
  using assms by (cases s; auto)+

text \<open>The indexed branch on a token \<open>R(O)\<close> built from two integer literals.\<close>

lemma encode_operand_indexed:
  assumes "py_int reg = Some r" and "py_int off = Some k"
  shows "encode_operand (reg @ ''('' @ off @ '')'') =
    Inr ((replicate (7 - length (bin_digits (nat \<bar>r\<bar>))) (CHR ''0'') @ bin_digits (nat \<bar>r\<bar>)) @
         (replicate (7 - length (bin_digits (nat \<bar>k\<bar>))) (CHR ''0'') @ bin_digits (nat \<bar>k\<bar>)))"
proof -
  have "split_char (CHR ''('') (reg @ CHR ''('' # off @ '')'') =
      reg # split_char (CHR ''('') (off @ '')'')"
    using py_int_no_paren(1) [OF assms(1)] by (rule split_char_first)
  moreover have "split_char (CHR ''('') (off @ '')'') = [off @ '')'']"
    using py_int_no_paren(1) [OF assms(2)] by (intro split_char_none) simp
  ultimately have sp: "split_char (CHR ''('') (reg @ ''('' @ off @ '')'') = [reg, off @ '')'']"
    by simp
  have "rstrip_char (CHR '')'') off = off"
    using py_int_no_paren(2) [OF assms(2)] py_int_nonempty [OF assms(2)]
    by (intro rstrip_char_id) (metis last_in_set)
  then have rs: "rstrip_char (CHR '')'') (off @ '')'') = off"
    by (simp add: rstrip_char_snoc)
  from sp rs encode_field_Some [OF assms(1)] encode_field_Some [OF assms(2)]
  show ?thesis by (simp add: encode_operand_def)
qed

text \<open>
  The executable test \<open>is_indexed_form\<close> is the form \<open>R(O)\<close> with integer literals, and
  every token of that form is among those the indexed branch takes.
\<close>

lemma is_indexed_form_iff:
  "is_indexed_form tok \<longleftrightarrow>
   (\<exists>reg off. tok = reg @ ''('' @ off @ '')'' \<and> is_int_literal reg \<and> is_int_literal off)"
proof
  define P where "P = (\<lambda>c. c \<noteq> CHR ''('')"
  define rest where "rest = drop 1 (dropWhile P tok)"
  assume "is_indexed_form tok"
  then have m: "CHR ''('' \<in> set tok" and r: "rest \<noteq> []" "last rest = CHR '')''"
    and l: "is_int_literal (takeWhile P tok)" "is_int_literal (butlast rest)"
    unfolding is_indexed_form_def Let_def P_def [symmetric] rest_def [symmetric] by simp_all
  from m have "dropWhile P tok \<noteq> []" by (auto simp: dropWhile_eq_Nil_conv P_def)
  moreover from this have "\<not> P (hd (dropWhile P tok))" by (rule hd_dropWhile)
  ultimately have "dropWhile P tok = CHR ''('' # rest"
    unfolding rest_def by (cases "dropWhile P tok") (auto simp: P_def)
  moreover from r have "rest = butlast rest @ '')''" by (metis append_butlast_last_id)
  moreover have "tok = takeWhile P tok @ dropWhile P tok" by simp
  ultimately have "tok = takeWhile P tok @ ''('' @ butlast rest @ '')''" by simp
  with l show "\<exists>reg off. tok = reg @ ''('' @ off @ '')'' \<and> is_int_literal reg \<and> is_int_literal off"
    by blast
next
  assume "\<exists>reg off. tok = reg @ ''('' @ off @ '')'' \<and> is_int_literal reg \<and> is_int_literal off"
  then obtain reg off where t: "tok = reg @ CHR ''('' # off @ '')''"
    and l: "is_int_literal reg" "is_int_literal off" by auto
  from l(1) obtain r where "py_int reg = Some r" by (auto simp: is_int_literal_def)
  from py_int_no_paren(1) [OF this] have n: "\<forall>c \<in> set reg. c \<noteq> CHR ''(''" by auto
  then have "takeWhile (\<lambda>c. c \<noteq> CHR ''('') tok = reg"
    and "dropWhile (\<lambda>c. c \<noteq> CHR ''('') tok = CHR ''('' # off @ '')''"
    unfolding t by (simp_all add: takeWhile_append2 dropWhile_append2)
  with l show "is_indexed_form tok"
    unfolding is_indexed_form_def Let_def by (simp add: t)
qed

lemma is_indexed_form_accepted:
  assumes "is_indexed_form tok"
  shows "accepted_indexed tok"
proof -
  from assms obtain reg off where t: "tok = reg @ ''('' @ off @ '')''"
    and l: "is_int_literal reg" "is_int_literal off"
    unfolding is_indexed_form_iff by blast
  from l obtain r k where "py_int reg = Some r" "py_int off = Some k"
    by (auto simp: is_int_literal_def)
  from encode_operand_indexed [OF this] have "encode_operand tok \<noteq> Inl ValueError"
    unfolding t by simp
  moreover have "\<not> is_int_literal tok"
    using py_int_no_paren(1) [of tok] unfolding t
    by (cases "py_int (reg @ ''('' @ off @ '')'')") (auto simp: is_int_literal_def)
  ultimately show ?thesis unfolding encode_operand_fails_iff by blast
qed

subsection \<open>Field widths and the value of a binary word\<close>

lemma length_digits_of_2_lower: "2 ^ k \<le> n \<Longrightarrow> k < length (digits_of 2 n)"
proof (induction k arbitrary: n)
  case 0
  then show ?case using digits_of_nonempty [of 2 n] by (cases "digits_of 2 n") auto
next
  case (Suc k)
  from Suc.prems have "2 ^ k \<le> n div 2" by auto
  from Suc.IH [OF this] have "k < length (digits_of 2 (n div 2))" .
  moreover have "(2::nat) \<le> 2 ^ Suc k" by simp
  with Suc.prems have "\<not> n < 2" by linarith
  ultimately show ?case by (subst digits_of.simps) simp
qed

lemma field_length:
  fixes v :: int
  defines "f \<equiv> replicate (7 - length (bin_digits (nat \<bar>v\<bar>))) (CHR ''0'') @ bin_digits (nat \<bar>v\<bar>)"
  shows "7 \<le> length f" and "length f = 7 \<longleftrightarrow> \<bar>v\<bar> < 128"
proof -
  show "7 \<le> length f" unfolding f_def by simp
  show "length f = 7 \<longleftrightarrow> \<bar>v\<bar> < 128"
  proof
    assume "\<bar>v\<bar> < 128"
    then show "length f = 7" unfolding f_def by (rule small_field_length)
  next
    assume l: "length f = 7"
    show "\<bar>v\<bar> < 128"
    proof (rule ccontr)
      assume "\<not> \<bar>v\<bar> < 128"
      then have "2 ^ 7 \<le> nat \<bar>v\<bar>" by simp
      then have "7 < length (digits_of 2 (nat \<bar>v\<bar>))" by (rule length_digits_of_2_lower)
      with l show False unfolding f_def bin_digits_def by simp
    qed
  qed
qed

lemma int_strip_id:
  assumes "w \<noteq> []" and "\<not> int_isspace (hd w)" and "\<not> int_isspace (last w)"
  shows "int_strip w = w"
proof -
  from assms(1,2) have "dropWhile int_isspace w = w" by (cases w) auto
  moreover from assms(1,3) have "dropWhile int_isspace (rev w) = rev w"
    by (cases "rev w") (auto simp: hd_rev [symmetric])
  ultimately show ?thesis by (simp add: int_strip_def)
qed

lemma digits_ok_binary:
  "w \<noteq> [] \<Longrightarrow> set w \<subseteq> {CHR ''0'', CHR ''1''} \<Longrightarrow> digits_ok 2 w"
proof (induction "2::nat" w rule: digits_ok.induct)
  case 1
  then show ?case by simp
next
  case (2 c)
  then show ?case by (auto simp: is_digit_def)
next
  case (3 c d cs)
  from "3.prems" have d: "d \<noteq> CHR ''_''" by auto
  from "3.prems" have "is_digit 2 c" by (auto simp: is_digit_def)
  with d "3.hyps"(2) "3.prems" show ?case by simp
qed

lemma binary_int_value:
  assumes "w \<noteq> []" and "set w \<subseteq> {CHR ''0'', CHR ''1''}"
  shows "py_int_base 2 w = Some (int (digits_value 2 w))"
proof -
  from assms have h: "hd w = CHR ''0'' \<or> hd w = CHR ''1''" by (cases w) auto
  have "last w \<in> set w" using assms(1) by (rule last_in_set)
  with assms(2) have l: "last w = CHR ''0'' \<or> last w = CHR ''1''" by blast
  have s: "int_strip w = w"
    using assms(1) h l by (intro int_strip_id) (auto simp: int_isspace_def)
  have p: "strip_prefix2 w = w"
    using assms(2) by (auto simp: strip_prefix2_def split: list.splits)
  have f: "filter (\<lambda>c. c \<noteq> CHR ''_'') w = w"
    using assms(2) by (intro filter_True) auto
  from h have n: "hd w \<noteq> CHR ''+''" "hd w \<noteq> CHR ''-''" by auto
  show ?thesis
    unfolding py_int_base_def Let_def s
    using n p f digits_ok_binary [OF assms] by simp
qed


subsection \<open>The driver loop\<close>

lemma interpret_loop_stop:
  "contains ''stop'' (hd (interpret_line l)) \<Longrightarrow>
   interpret_loop a fs (pre @ l # post) = interpret_loop a fs pre"
  by (induction pre arbitrary: fs) (auto simp: Let_def split: sum.splits option.splits)

text \<open>
  C4. Once a line whose mnemonic contains \<open>stop\<close> is reached, the run is the run on the
  lines before it: neither that line nor any later one, whatever it holds, adds a line
  to the primary output or a diagnostic record.
\<close>

theorem stop_sentinel:
  "contains ''stop'' (hd (interpret_line l)) \<Longrightarrow>
   interpret_input self (pre @ l # post) = interpret_input self pre"
  unfolding interpret_input_def by (rule interpret_loop_stop)

theorem stop_sentinel_witness:
  "contains ''stop'' (hd (interpret_line ''stop // end'')) \<and>
   interpret_input \<lparr>instruction_to_opcode_dict = Map.empty, log_severity = PyBool False\<rparr>
     ([''add 1 2''] @ ''stop // end'' # [''add 3 4'', ''junk x'']) =
   interpret_input \<lparr>instruction_to_opcode_dict = Map.empty, log_severity = PyBool False\<rparr>
     [''add 1 2'']"
proof -
  have h: "contains ''stop'' (hd (interpret_line ''stop // end''))" by code_simp
  from h stop_sentinel [OF h, of _ "[''add 1 2'']" "[''add 3 4'', ''junk x'']"]
  show ?thesis by simp
qed

subsection \<open>Loading the opcode table\<close>






subsection \<open>Signed fields\<close>

text \<open>The field depends on the magnitude only: a value and its negation get the same field.\<close>

lemma encode_field_sign_blind:
  "py_int a = Some v \<Longrightarrow> py_int b = Some (- v) \<Longrightarrow> encode_field a = encode_field b"
  by (simp add: encode_field_Some)

text \<open>
  C1. The specification asks for sign-magnitude fields: \<open>-5\<close> at width 7 is to give
  \<open>1000101\<close>. \<open>populate\<close> removes the sign before it tests for it, so the field of
  \<open>-5\<close> is the field of \<open>5\<close>.
\<close>

theorem populate_loses_sign:
  "encode_operand ''-5'' = Inr ''0000101'' \<and> encode_operand ''5'' = Inr ''0000101'' \<and>
   encode_operand ''0'' = Inr ''0000000''"
  by code_simp

subsection \<open>The debug flag\<close>

text \<open>A \<open>bool\<close> in \<open>log_severity\<close> never equals \<open>2\<close>, so the flag changes nothing.\<close>

lemma interpret_loop_bool_severity:
  "interpret_loop \<lparr>instruction_to_opcode_dict = d, log_severity = PyBool b\<rparr> fs source =
   interpret_loop \<lparr>instruction_to_opcode_dict = d, log_severity = PyBool b'\<rparr> fs source"
  by (induction source arbitrary: fs) (auto simp: Let_def split: sum.splits)

lemma debug_flag_ignored: "main True instruction_list source = main False instruction_list source"
  by (auto simp: main_def init_def interpret_input_def interpret_loop_bool_severity [of _ True _ _ False]
      split: sum.splits)

text \<open>
  C3. With \<open>--debug\<close> the script stores \<open>True\<close> in \<open>log_severity\<close>; the loop compares it
  with \<open>2\<close>, so the diagnostic record carries no hexadecimal column.
\<close>

theorem debug_flag_no_hex:
  "main True [''add rt, ra, rb'' @ [CHR 0x09] @ ''000000'' @ [CHR 0x0A]]
             [''add 1 2'' @ [CHR 0x0A]] =
   Inr (\<lparr>output_file = [''00000000000000000000000010000010'' @ [CHR 0x0A]],
          data_object = [''00000000000000000000000010000010'' @ [CHR 0x09] @
                         ''add 1 2'' @ [CHR 0x0A]]\<rparr>, None)"
  by code_simp

subsection \<open>Comments\<close>

lemma strip_comment_only:
  assumes "\<forall>c \<in> set ws. py_isspace c"
  shows "strip (ws @ ''//'' @ c) = ''//'' @ rstrip c"
proof -
  have "lstrip (ws @ ''//'' @ c) = ''//'' @ c"
    using assms by (simp add: lstrip_spaces_append lstrip_nonspace slash_not_space)
  then show ?thesis
    by (simp add: strip_def rstrip_Cons_nonspace slash_not_space)
qed

lemma strip_with_comment:
  assumes "strip s = s" and "s \<noteq> []"
  shows "strip (s @ ws @ ''//'' @ c) = s @ ws @ ''//'' @ rstrip c"
proof -
  from assms obtain a as where s: "s = a # as" by (cases s) auto
  from strip_fixed(1) [OF assms(1)] hd_lstrip [of s] assms(2) have "\<not> py_isspace a"
    by (simp add: s)
  then have "lstrip (s @ ws @ ''//'' @ c) = s @ ws @ ''//'' @ c"
    by (simp add: s lstrip_nonspace)
  moreover have "rstrip ((s @ ws) @ CHR ''/'' # CHR ''/'' # c) =
      (s @ ws) @ CHR ''/'' # rstrip (CHR ''/'' # c)"
    by (rule rstrip_append_nonspace) (rule slash_not_space)
  ultimately show ?thesis
    by (simp add: strip_def rstrip_Cons_nonspace slash_not_space)
qed

text \<open>
  C9 (amended). Appending a comment to a trimmed line \<open>s\<close>, after any run \<open>ws\<close> of
  whitespace, leaves the parse of \<open>s\<close> as it was, provided the comment marker does not
  directly follow a line ending in \<open>/\<close>; in particular \<open>add 1 2 // comment\<close> parses as
  \<open>add 1 2\<close> does.
\<close>

theorem comment_append:
  assumes "strip s = s"
    and "\<forall>c \<in> set ws. py_isspace c"
    and "ws = [] \<longrightarrow> s = [] \<or> last s \<noteq> CHR ''/''"
  shows "interpret_line (s @ ws @ ''//'' @ c) = interpret_line s"
proof (cases "s = []")
  case True
  then show ?thesis
    by (simp add: interpret_line_def strip_comment_only [OF assms(2), simplified])
next
  case False
  have st: "strip (s @ ws @ ''//'' @ c) = s @ ws @ ''//'' @ rstrip c"
    using assms(1) False by (rule strip_with_comment)
  show ?thesis
  proof (cases "contains ''//'' s")
    case True
    then have "before_sep ''//'' (s @ ws @ ''//'' @ rstrip c) = before_sep ''//'' s"
      by (rule before_sep_contains_append)
    then show ?thesis by (simp only: interpret_line_def st assms(1))
  next
    case nc: False
    from assms(2) slash_not_space have ns: "CHR ''/'' \<notin> set ws" by auto
    with nc have 1: "\<not> contains ''//'' (s @ ws)" by (simp add: contains_comment_append)
    have 2: "s @ ws = [] \<or> last (s @ ws) \<noteq> CHR ''/''"
    proof (cases "ws = []")
      case True
      with assms(3) show ?thesis by simp
    next
      case False
      then have "last ws \<in> set ws" by simp
      with ns have "last ws \<noteq> CHR ''/''" by metis
      with False show ?thesis by simp
    qed
    have "before_sep ''//'' ((s @ ws) @ ''//'' @ rstrip c) = s @ ws"
      using 1 2 by (rule before_comment_at_end)
    then have b: "before_sep ''//'' (s @ ws @ ''//'' @ rstrip c) = s @ ws" by simp
    have "lstrip (s @ ws) = s @ ws"
    proof -
      from False obtain a as where s: "s = a # as" by (cases s) auto
      from strip_fixed(1) [OF assms(1)] hd_lstrip [of s] False have "\<not> py_isspace a"
        by (simp add: s)
      then show ?thesis by (simp add: s lstrip_nonspace)
    qed
    then have t: "strip (s @ ws) = s"
      using assms(2) strip_fixed(2) [OF assms(1)] by (simp add: strip_def rstrip_append_spaces)
    have "interpret_line (s @ ws @ ''//'' @ c) = split_char (CHR '' '') s"
      unfolding interpret_line_def st b t ..
    moreover have "interpret_line s = split_char (CHR '' '') s"
      unfolding interpret_line_def assms(1) before_sep_absent [OF nc] assms(1) ..
    ultimately show ?thesis by simp
  qed
qed

theorem comment_append_witness:
  "strip ''add 1 2'' = ''add 1 2'' \<and>
   interpret_line (''add 1 2'' @ '' '' @ ''//'' @ '' comment'') = interpret_line ''add 1 2'' \<and>
   interpret_line ''add 1 2'' = [''add'', ''1'', ''2'']"
proof -
  have h1: "strip ''add 1 2'' = ''add 1 2''" by code_simp
  have h2: "\<forall>c \<in> set '' ''. py_isspace c" by (simp add: py_isspace_def)
  have h3: "'' '' = [] \<longrightarrow> ''add 1 2'' = [] \<or> last ''add 1 2'' \<noteq> CHR ''/''" by simp
  have h4: "interpret_line ''add 1 2'' = [''add'', ''1'', ''2'']" by code_simp
  from comment_append [OF h1 h2 h3, of "'' comment''"] h1 h4 show ?thesis by simp
qed

text \<open>
  The claim as written fails for a trimmed line that ends in \<open>/\<close>: the appended marker
  then starts one character earlier.
\<close>

theorem comment_append_counterexample:
  "strip ''ld 4/'' = ''ld 4/'' \<and>
   interpret_line (''ld 4/'' @ ''// note'') = [''ld'', ''4''] \<and>
   interpret_line ''ld 4/'' = [''ld'', ''4/'']"
  by code_simp

subsection \<open>Empty and comment-only lines\<close>

lemma blank_line_parse: "blank_line l \<Longrightarrow> interpret_line l = [[]]"
  by (auto simp: blank_line_def interpret_line_def prefix_def)

lemma tab_space: "py_isspace (CHR 0x09)" and blank_space: "py_isspace (CHR '' '')"
  by (simp_all add: py_isspace_def)

lemma parse_definition_key:
  assumes "parse_definition l = Inr (m, c)"
  shows "m \<noteq> []"
proof -
  from assms obtain operation code where sp: "split_char (CHR 0x09) (strip l) = [operation, code]"
    and m: "m = hd (split_char (CHR '' '') operation)"
    by (auto simp: parse_definition_def split: list.splits)
  have ne: "strip l \<noteq> []"
  proof
    assume "strip l = []"
    with sp show False by simp
  qed
  then obtain a as where s: "strip l = a # as" by (cases "strip l") auto
  from hd_strip [OF ne] have a: "\<not> py_isspace a" by (simp add: s)
  with tab_space blank_space have a2: "a \<noteq> CHR 0x09" "a \<noteq> CHR '' ''" by auto
  from sp have "operation = hd (split_char (CHR 0x09) (strip l))" by simp
  then have "operation = takeWhile (\<lambda>c. c \<noteq> CHR 0x09) (a # as)" by (simp only: hd_split_char s)
  with a2 obtain os where "operation = a # os" by simp
  with a2 m show ?thesis by (simp add: hd_split_char)
qed

lemma import_loop_no_empty_key:
  "import_loop d ls = Inr d' \<Longrightarrow> d [] = None \<Longrightarrow> d' [] = None"
proof (induction ls arbitrary: d)
  case Nil
  then show ?case by simp
next
  case (Cons l ls)
  from Cons.prems(1) obtain k c where p: "parse_definition l = Inr (k, c)"
    and r: "import_loop (d(k \<mapsto> c)) ls = Inr d'"
    by (auto split: sum.splits)
  from parse_definition_key [OF p] Cons.prems(2) have "(d(k \<mapsto> c)) [] = None" by auto
  with Cons.IH [OF r] show ?case .
qed

lemma init_no_empty_key:
  "init instruction_list debug = Inr self \<Longrightarrow> instruction_to_opcode_dict self [] = None"
  by (auto simp: init_def import_map_def split: sum.splits dest: import_loop_no_empty_key)

lemma init_log_severity:
  "init instruction_list debug = Inr self \<Longrightarrow> log_severity self = debug"
  by (auto simp: init_def split: sum.splits)

lemma zero_word: "zfill 32 ''00000000000'' = replicate 32 (CHR ''0'')"
  by code_simp

lemma zero_word_value: "py_int_base 2 (replicate 32 (CHR ''0'')) = Some 0"
  by code_simp

lemma zero_hex: "format_hex 0 = ''0x00000000''"
  by code_simp

text \<open>
  C2 (amended). An empty or comment-only line parses to the empty mnemonic with no
  operand, and the driver encodes it like any other line. No table that \<open>import_map\<close>
  builds has the empty mnemonic as a key, so the fallback opcode is used: the line adds
  the all-zero word to the primary output and one diagnostic record (with the
  hexadecimal column exactly when \<open>log_severity == 2\<close>), and the loop goes on.
\<close>

theorem blank_line_emits_word:
  assumes "blank_line l" and "init instruction_list debug = Inr self"
  shows "interpret_line l = [[]] \<and>
    interpret_loop self fs (l # rest) =
      interpret_loop self
        (fs\<lparr>output_file := output_file fs @ [replicate 32 (CHR ''0'') @ [CHR 0x0A]],
            data_object := data_object fs @
              [replicate 32 (CHR ''0'') @ [CHR 0x09] @
               (if py_eq debug (PyInt 2) then ''0x00000000'' @ [CHR 0x09] else []) @ l]\<rparr>)
        rest"
proof -
  have p: "interpret_line l = [[]]" using assms(1) by (rule blank_line_parse)
  have k: "dict_get (instruction_to_opcode_dict self) [] ''00000000000'' = ''00000000000''"
    using init_no_empty_key [OF assms(2)] by (simp add: dict_get_def)
  have c: "calculate ''00000000000'' [[]] = Inr (replicate 32 (CHR ''0''))"
    by (simp add: calculate_def zero_word)
  show ?thesis
    using init_log_severity [OF assms(2)]
    by (simp add: p k c zero_word_value zero_hex Let_def)
qed

theorem blank_line_emits_word_witness:
  "blank_line ''  // note'' \<and>
   init [''add rt, ra, rb'' @ [CHR 0x09] @ ''000000''] (PyInt 2) =
     Inr \<lparr>instruction_to_opcode_dict = [''add'' \<mapsto> ''000000''], log_severity = PyInt 2\<rparr> \<and>
   interpret_line ''  // note'' = [[]] \<and>
   interpret_loop
     \<lparr>instruction_to_opcode_dict = [''add'' \<mapsto> ''000000''], log_severity = PyInt 2\<rparr>
     \<lparr>output_file = [], data_object = []\<rparr> [''  // note''] =
   (\<lparr>output_file = [''00000000000000000000000000000000'' @ [CHR 0x0A]],
      data_object = [''00000000000000000000000000000000'' @ [CHR 0x09] @ ''0x00000000'' @
                     [CHR 0x09] @ ''  // note'']\<rparr>, None)"
proof -
  have b: "blank_line ''  // note''" by code_simp
  have p: "parse_definition (''add rt, ra, rb'' @ [CHR 0x09] @ ''000000'') = Inr (''add'', ''000000'')"
    by code_simp
  have i: "init [''add rt, ra, rb'' @ [CHR 0x09] @ ''000000''] (PyInt 2) =
     Inr \<lparr>instruction_to_opcode_dict = [''add'' \<mapsto> ''000000''], log_severity = PyInt 2\<rparr>"
    using p by (simp add: init_def import_map_def)
  have r: "replicate 32 (CHR ''0'') = ''00000000000000000000000000000000''" by code_simp
  from blank_line_emits_word [OF b i, of "\<lparr>output_file = [], data_object = []\<rparr>" "[]"] b i
  show ?thesis by (simp add: r del: interpret_loop.simps(2))
qed

text \<open>
  The claim as written fails: a blank line and a comment-only line each add a word and a
  diagnostic record.
\<close>

theorem blank_line_counterexample:
  "blank_line [CHR 0x0A] \<and> blank_line ''  // note'' \<and>
   main False [''add rt, ra, rb'' @ [CHR 0x09] @ ''000000''] [[CHR 0x0A], ''  // note''] =
   Inr (\<lparr>output_file = [''00000000000000000000000000000000'' @ [CHR 0x0A],
                         ''00000000000000000000000000000000'' @ [CHR 0x0A]],
          data_object = [''00000000000000000000000000000000'' @ [CHR 0x09] @ [CHR 0x0A],
                         ''00000000000000000000000000000000'' @ [CHR 0x09] @ ''  // note'']\<rparr>,
        None)"
  by code_simp

subsection \<open>The assembled word\<close>

text \<open>
  C6. When every operand token is encoded, \<open>calculate\<close> returns a word: the opcode field
  followed by the operand fields in token order, of length 32 or the length of that
  concatenation, whichever is larger. When the concatenation has more than 32 characters
  the word is the concatenation itself, not truncated. When it has at most 32 and the
  opcode field does not start with a sign character (a bit string never does), the word
  is the concatenation with zeros added on the left up to exactly 32 characters.
\<close>

theorem calculate_word:
  assumes "list_all2 (\<lambda>op f. encode_operand op = Inr f) ops flds"
  shows "\<exists>w. calculate operation_code (mnemonic # ops) = Inr w \<and>
     length w = max 32 (length (operation_code @ concat flds)) \<and>
     (32 < length (operation_code @ concat flds) \<longrightarrow> w = operation_code @ concat flds) \<and>
     (length (operation_code @ concat flds) \<le> 32 \<and>
      \<not> prefix ''-'' operation_code \<and> \<not> prefix ''+'' operation_code \<longrightarrow>
        length w = 32 \<and>
        w = replicate (32 - length (operation_code @ concat flds)) (CHR ''0'') @
            operation_code @ concat flds)"
proof -
  define ib where "ib = operation_code @ concat flds"
  from assms have "calculate_loop operation_code ops = Inr ib"
    unfolding calculate_loop_Inr ib_def by blast
  then have c: "calculate operation_code (mnemonic # ops) = Inr (zfill 32 ib)"
    by (simp add: calculate_def)
  have l: "length (zfill 32 ib) = max 32 (length ib)" by (rule length_zfill)
  have o: "32 < length ib \<longrightarrow> zfill 32 ib = ib" by (simp add: zfill_long)
  have p: "zfill 32 ib = replicate (32 - length ib) (CHR ''0'') @ ib"
    if s: "\<not> prefix ''-'' operation_code" "\<not> prefix ''+'' operation_code"
  proof -
    from concat_fields_binary [OF assms] have b: "set (concat flds) \<subseteq> {CHR ''0'', CHR ''1''}" .
    have "\<not> prefix ''-'' ib" "\<not> prefix ''+'' ib"
      using s binary_unsigned [OF b] unfolding ib_def by (cases operation_code; simp)+
    then show ?thesis by (rule zfill_unsigned)
  qed
  from c l o p show ?thesis unfolding ib_def [symmetric] by auto
qed

theorem calculate_word_witness:
  "list_all2 (\<lambda>op f. encode_operand op = Inr f) [''1'', ''2''] [''0000001'', ''0000010''] \<and>
   calculate ''000000'' [''add'', ''1'', ''2''] =
     Inr (''000000000000'' @ ''000000'' @ ''0000001'' @ ''0000010'') \<and>
   list_all2 (\<lambda>op f. encode_operand op = Inr f) [''1'', ''2'', ''3'', ''4'']
     [''0000001'', ''0000010'', ''0000011'', ''0000100''] \<and>
   calculate ''00000000000'' [''nop'', ''1'', ''2'', ''3'', ''4''] =
     Inr (''00000000000'' @ ''0000001'' @ ''0000010'' @ ''0000011'' @ ''0000100'')"
proof -
  have e: "encode_operand ''1'' = Inr ''0000001''" "encode_operand ''2'' = Inr ''0000010''"
    "encode_operand ''3'' = Inr ''0000011''" "encode_operand ''4'' = Inr ''0000100''"
    by code_simp+
  have a: "list_all2 (\<lambda>op f. encode_operand op = Inr f) [''1'', ''2''] [''0000001'', ''0000010'']"
    using e by simp
  have b: "list_all2 (\<lambda>op f. encode_operand op = Inr f) [''1'', ''2'', ''3'', ''4'']
     [''0000001'', ''0000010'', ''0000011'', ''0000100'']"
    using e by simp
  have r: "replicate 12 (CHR ''0'') = ''000000000000''" by code_simp
  from calculate_word [OF a, of "''000000''" "''add''"]
  have 1: "calculate ''000000'' [''add'', ''1'', ''2''] =
     Inr (''000000000000'' @ ''000000'' @ ''0000001'' @ ''0000010'')"
    by (auto simp: r)
  from calculate_word [OF b, of "''00000000000''" "''nop''"]
  have 2: "calculate ''00000000000'' [''nop'', ''1'', ''2'', ''3'', ''4''] =
     Inr (''00000000000'' @ ''0000001'' @ ''0000010'' @ ''0000011'' @ ''0000100'')"
    by auto
  from a b 1 2 show ?thesis by blast
qed

subsection \<open>Unknown mnemonics\<close>

text \<open>
  C5 (amended). When the loop reaches a line whose mnemonic is absent from the table (and
  does not contain \<open>stop\<close>) and whose operands are integer literals, nothing is raised:
  the opcode is the fallback of eleven zeros, the word \<open>w\<close> is the fallback followed by
  the operand fields, zero-filled to 32, the word and its diagnostic record are written
  and the loop goes on. The word consists of binary digits and its length is the larger
  of 32 and 11 plus the total length of the fields: it has exactly 32 characters when
  there are at most three operands of magnitude below 128, and when the fields total more
  than 21 characters it is the longer concatenation, not truncated.
\<close>

theorem unknown_mnemonic:
  assumes "interpret_line l = m # ops"
    and "\<not> contains ''stop'' m"
    and "instruction_to_opcode_dict self m = None"
    and "\<forall>op \<in> set ops. is_int_literal op"
  shows "\<exists>flds w. list_all2 (\<lambda>op f. encode_operand op = Inr f) ops flds \<and>
      w = zfill 32 (''00000000000'' @ concat flds) \<and>
      set w \<subseteq> {CHR ''0'', CHR ''1''} \<and>
      length w = max 32 (11 + length (concat flds)) \<and>
      (21 < length (concat flds) \<longrightarrow> w = ''00000000000'' @ concat flds) \<and>
      (length ops \<le> 3 \<and> (\<forall>op \<in> set ops. \<forall>v. py_int op = Some v \<longrightarrow> \<bar>v\<bar> < 128)
         \<longrightarrow> length w = 32) \<and>
      interpret_loop self fs (l # rest) =
        interpret_loop self
          (fs\<lparr>output_file := output_file fs @ [w @ [CHR 0x0A]],
              data_object := data_object fs @
                [w @ [CHR 0x09] @
                 (if py_eq (log_severity self) (PyInt 2)
                  then format_hex (int (digits_value 2 w)) @ [CHR 0x09] else []) @ l]\<rparr>)
          rest"
proof -
  define flds where "flds = map (\<lambda>op. projr (encode_operand op)) ops"
  have e: "\<forall>op \<in> set ops. encode_operand op = Inr (projr (encode_operand op))"
    using assms(4) encode_operand_literal by fastforce
  then have a: "list_all2 (\<lambda>op f. encode_operand op = Inr f) ops flds"
    unfolding flds_def by (simp add: list_all2_map2 list_all2_same)
  define w where "w = zfill 32 (''00000000000'' @ concat flds)"
  from a have "calculate_loop ''00000000000'' ops = Inr (''00000000000'' @ concat flds)"
    unfolding calculate_loop_Inr by blast
  then have c: "calculate ''00000000000'' (m # ops) = Inr w"
    by (simp add: calculate_def w_def)
  have b: "set w \<subseteq> {CHR ''0'', CHR ''1''}"
    using set_zfill [of 32 "''00000000000'' @ concat flds"] concat_fields_binary [OF a]
    unfolding w_def by auto
  have l: "length w = max 32 (11 + length (concat flds))"
    unfolding w_def by (simp add: length_zfill)
  have o: "21 < length (concat flds) \<longrightarrow> w = ''00000000000'' @ concat flds"
    unfolding w_def by (simp add: zfill_long)
  have s: "length ops \<le> 3 \<and> (\<forall>op \<in> set ops. \<forall>v. py_int op = Some v \<longrightarrow> \<bar>v\<bar> < 128)
      \<longrightarrow> length w = 32"
  proof
    assume h: "length ops \<le> 3 \<and> (\<forall>op \<in> set ops. \<forall>v. py_int op = Some v \<longrightarrow> \<bar>v\<bar> < 128)"
    have "\<forall>f \<in> set flds. length f = 7"
    proof
      fix f assume "f \<in> set flds"
      then obtain op where op: "op \<in> set ops" and f: "f = projr (encode_operand op)"
        by (auto simp: flds_def)
      from assms(4) op have "is_int_literal op" by simp
      from encode_operand_literal [OF this] obtain x where x: "py_int op = Some x"
        and r: "encode_operand op =
          Inr (replicate (7 - length (bin_digits (nat \<bar>x\<bar>))) (CHR ''0'') @ bin_digits (nat \<bar>x\<bar>))"
        by blast
      from h op x have "\<bar>x\<bar> < 128" by blast
      from small_field_length [OF this] r f show "length f = 7" by simp
    qed
    then have "length (concat flds) = 7 * length flds" by (rule length_concat_sevens)
    with h have "length (concat flds) \<le> 21" by (simp add: flds_def)
    with l show "length w = 32" by simp
  qed
  from l have "w \<noteq> []" by auto
  from binary_int_value [OF this b] have v: "py_int_base 2 w = Some (int (digits_value 2 w))" .
  have g: "dict_get (instruction_to_opcode_dict self) m ''00000000000'' = ''00000000000''"
    using assms(3) by (simp add: dict_get_def)
  have i: "interpret_loop self fs (l # rest) =
        interpret_loop self
          (fs\<lparr>output_file := output_file fs @ [w @ [CHR 0x0A]],
              data_object := data_object fs @
                [w @ [CHR 0x09] @
                 (if py_eq (log_severity self) (PyInt 2)
                  then format_hex (int (digits_value 2 w)) @ [CHR 0x09] else []) @ l]\<rparr>)
          rest"
    using assms(2) by (simp add: assms(1) g c v Let_def)
  show ?thesis
  proof (intro exI conjI)
    show "list_all2 (\<lambda>op f. encode_operand op = Inr f) ops flds" by (rule a)
    show "w = zfill 32 (''00000000000'' @ concat flds)" by (rule w_def)
    show "set w \<subseteq> {CHR ''0'', CHR ''1''}" by (rule b)
    show "length w = max 32 (11 + length (concat flds))" by (rule l)
    show "21 < length (concat flds) \<longrightarrow> w = ''00000000000'' @ concat flds" by (rule o)
    show "length ops \<le> 3 \<and> (\<forall>op \<in> set ops. \<forall>v. py_int op = Some v \<longrightarrow> \<bar>v\<bar> < 128)
      \<longrightarrow> length w = 32" by (rule s)
    show "interpret_loop self fs (l # rest) =
        interpret_loop self
          (fs\<lparr>output_file := output_file fs @ [w @ [CHR 0x0A]],
              data_object := data_object fs @
                [w @ [CHR 0x09] @
                 (if py_eq (log_severity self) (PyInt 2)
                  then format_hex (int (digits_value 2 w)) @ [CHR 0x09] else []) @ l]\<rparr>)
          rest" by (rule i)
  qed
qed

theorem unknown_mnemonic_witness:
  "interpret_line ''nop 1 -2 3'' = [''nop'', ''1'', ''-2'', ''3''] \<and>
   \<not> contains ''stop'' ''nop'' \<and>
   [''add'' \<mapsto> ''000000''] ''nop'' = None \<and>
   is_int_literal ''1'' \<and> is_int_literal ''-2'' \<and> is_int_literal ''3'' \<and>
   interpret_loop
     \<lparr>instruction_to_opcode_dict = [''add'' \<mapsto> ''000000''], log_severity = PyBool False\<rparr>
     \<lparr>output_file = [], data_object = []\<rparr> [''nop 1 -2 3''] =
   (\<lparr>output_file = [''00000000000000000100000100000011'' @ [CHR 0x0A]],
      data_object = [''00000000000000000100000100000011'' @ [CHR 0x09] @ ''nop 1 -2 3'']\<rparr>,
    None)"
proof -
  let ?self = "\<lparr>instruction_to_opcode_dict = [''add'' \<mapsto> ''000000''], log_severity = PyBool False\<rparr>"
  let ?fs = "\<lparr>output_file = [], data_object = []\<rparr>"
  have h1: "interpret_line ''nop 1 -2 3'' = [''nop'', ''1'', ''-2'', ''3'']" by code_simp
  have h2: "\<not> contains ''stop'' ''nop''" by code_simp
  have h3: "instruction_to_opcode_dict ?self ''nop'' = None" by simp
  have l: "is_int_literal ''1''" "is_int_literal ''-2''" "is_int_literal ''3''" by code_simp+
  have h4: "\<forall>op \<in> set [''1'', ''-2'', ''3'']. is_int_literal op" using l by simp
  have e: "encode_operand ''1'' = Inr ''0000001''" "encode_operand ''-2'' = Inr ''0000010''"
    "encode_operand ''3'' = Inr ''0000011''" by code_simp+
  have z: "zfill 32 (''00000000000'' @ concat [''0000001'', ''0000010'', ''0000011'']) =
    ''00000000000000000100000100000011''" by code_simp
  have "interpret_loop ?self ?fs [''nop 1 -2 3''] =
   (\<lparr>output_file = [''00000000000000000100000100000011'' @ [CHR 0x0A]],
      data_object = [''00000000000000000100000100000011'' @ [CHR 0x09] @ ''nop 1 -2 3'']\<rparr>,
    None)"
    using unknown_mnemonic [OF h1 h2 h3 h4, of ?fs "[]"]
  proof (elim exE conjE)
    fix flds w
    assume a: "list_all2 (\<lambda>op f. encode_operand op = Inr f) [''1'', ''-2'', ''3''] flds"
      and w: "w = zfill 32 (''00000000000'' @ concat flds)"
      and i: "interpret_loop ?self ?fs [''nop 1 -2 3''] =
        interpret_loop ?self
          (?fs\<lparr>output_file := output_file ?fs @ [w @ [CHR 0x0A]],
              data_object := data_object ?fs @
                [w @ [CHR 0x09] @
                 (if py_eq (log_severity ?self) (PyInt 2)
                  then format_hex (int (digits_value 2 w)) @ [CHR 0x09] else []) @
                 ''nop 1 -2 3'']\<rparr>)
          []"
    from a e have "flds = [''0000001'', ''0000010'', ''0000011'']"
      by (auto simp: list_all2_Cons1)
    with w z have "w = ''00000000000000000100000100000011''" by simp
    with i show ?thesis by (simp del: interpret_loop.simps(2))
  qed
  with h1 h2 l show ?thesis by simp
qed

text \<open>
  The claim as written fails with a fourth operand: the fallback opcode and four fields
  make 39 characters, and \<open>zfill\<close> does not shorten them.
\<close>

theorem unknown_mnemonic_counterexample:
  "is_int_literal ''1'' \<and> is_int_literal ''2'' \<and> is_int_literal ''3'' \<and> is_int_literal ''4'' \<and>
   main False [''add rt, ra, rb'' @ [CHR 0x09] @ ''000000''] [''nop 1 2 3 4''] =
   Inr (\<lparr>output_file = [''000000000000000001000001000000110000100'' @ [CHR 0x0A]],
          data_object = [''000000000000000001000001000000110000100'' @ [CHR 0x09] @
                         ''nop 1 2 3 4'']\<rparr>, None) \<and>
   length ''000000000000000001000001000000110000100'' = 39"
  by code_simp

subsection \<open>Indexed operands\<close>

text \<open>
  C7 (amended). For integer literals \<open>R\<close> and \<open>O\<close> the token \<open>R(O)\<close> is split into \<open>R\<close>
  (before the first parenthesis) and \<open>O\<close> (between the parentheses); each is encoded as
  a plain operand is, and the result is the field of \<open>R\<close> followed by the field of \<open>O\<close>.
  A field has exactly 7 characters when the magnitude is below 128 and more than 7 when
  it is 128 or more, so the two make 14 characters exactly when both magnitudes are
  below 128.
\<close>

theorem indexed_operand:
  assumes "py_int reg = Some r" and "py_int off = Some k"
  shows "\<exists>fr fo. encode_operand reg = Inr fr \<and> encode_operand off = Inr fo \<and>
     encode_operand (reg @ ''('' @ off @ '')'') = Inr (fr @ fo) \<and>
     (\<bar>r\<bar> < 128 \<longrightarrow> length fr = 7) \<and> (\<bar>k\<bar> < 128 \<longrightarrow> length fo = 7) \<and>
     (128 \<le> \<bar>r\<bar> \<longrightarrow> 7 < length fr) \<and> (128 \<le> \<bar>k\<bar> \<longrightarrow> 7 < length fo) \<and>
     (length (fr @ fo) = 14 \<longleftrightarrow> \<bar>r\<bar> < 128 \<and> \<bar>k\<bar> < 128)"
proof -
  define fr where
    "fr = replicate (7 - length (bin_digits (nat \<bar>r\<bar>))) (CHR ''0'') @ bin_digits (nat \<bar>r\<bar>)"
  define fo where
    "fo = replicate (7 - length (bin_digits (nat \<bar>k\<bar>))) (CHR ''0'') @ bin_digits (nat \<bar>k\<bar>)"
  have 1: "encode_operand reg = Inr fr"
    unfolding fr_def encode_operand_plain [OF assms(1)] using assms(1) by (rule encode_field_Some)
  have 2: "encode_operand off = Inr fo"
    unfolding fo_def encode_operand_plain [OF assms(2)] using assms(2) by (rule encode_field_Some)
  have 3: "encode_operand (reg @ ''('' @ off @ '')'') = Inr (fr @ fo)"
    unfolding fr_def fo_def using assms by (rule encode_operand_indexed)
  have lr: "7 \<le> length fr" "length fr = 7 \<longleftrightarrow> \<bar>r\<bar> < 128"
    unfolding fr_def by (rule field_length)+
  have lo: "7 \<le> length fo" "length fo = 7 \<longleftrightarrow> \<bar>k\<bar> < 128"
    unfolding fo_def by (rule field_length)+
  have 4: "\<bar>r\<bar> < 128 \<longrightarrow> length fr = 7" "\<bar>k\<bar> < 128 \<longrightarrow> length fo = 7"
    using lr lo by simp_all
  have 5: "128 \<le> \<bar>r\<bar> \<longrightarrow> 7 < length fr" "128 \<le> \<bar>k\<bar> \<longrightarrow> 7 < length fo"
    using lr lo by auto
  have 6: "length (fr @ fo) = 14 \<longleftrightarrow> \<bar>r\<bar> < 128 \<and> \<bar>k\<bar> < 128"
    using lr lo by auto
  from 1 2 3 4 5 6 show ?thesis by blast
qed

theorem indexed_operand_witness:
  "py_int ''2'' = Some 2 \<and> py_int ''3'' = Some 3 \<and>
   encode_operand ''2'' = Inr ''0000010'' \<and> encode_operand ''3'' = Inr ''0000011'' \<and>
   encode_operand ''2(3)'' = Inr (''0000010'' @ ''0000011'')"
proof -
  have h1: "py_int ''2'' = Some 2" and h2: "py_int ''3'' = Some 3" by code_simp+
  have e1: "encode_operand ''2'' = Inr ''0000010''" and e2: "encode_operand ''3'' = Inr ''0000011''"
    by code_simp+
  from indexed_operand [OF h1 h2] h1 h2 e1 e2 show ?thesis by auto
qed

text \<open>
  The claim as written fails on the width: the register \<open>200\<close> needs eight binary digits,
  and the token \<open>200(3)\<close> is encoded in 15 characters.
\<close>

theorem indexed_operand_counterexample:
  "py_int ''200'' = Some 200 \<and> py_int ''3'' = Some 3 \<and>
   encode_operand ''200(3)'' = Inr (''11001000'' @ ''0000011'') \<and>
   length (''11001000'' @ ''0000011'') = 15"
  by code_simp

subsection \<open>Operands that are not accepted\<close>

text \<open>
  C8 (amended). When the loop reaches a line that is not a stop line and one of its
  operand tokens is neither an integer literal nor taken by the indexed branch (both
  parentheses present, integer literals before the first \<open>(\<close> and between it and the
  next \<open>(\<close> once trailing \<open>)\<close> are removed), \<open>int\<close> raises \<open>ValueError\<close>: the run ends
  there with the files as they were, nothing is written for that line and no later line
  is processed.
\<close>

theorem bad_operand_aborts:
  assumes "\<not> contains ''stop'' (hd (interpret_line l))"
    and "tok \<in> set (drop 1 (interpret_line l))"
    and "\<not> is_int_literal tok" and "\<not> accepted_indexed tok"
  shows "interpret_loop self fs (l # rest) = (fs, Some ValueError)"
proof -
  from assms(3,4) have "encode_operand tok = Inl ValueError"
    by (simp add: encode_operand_fails_iff)
  with assms(2) have "calculate_loop opc (drop 1 (interpret_line l)) = Inl ValueError" for opc
    unfolding calculate_loop_Inl by blast
  then have "calculate opc (interpret_line l) = Inl ValueError" for opc
    by (simp add: calculate_def)
  with assms(1) show ?thesis by (simp add: Let_def)
qed

theorem bad_operand_aborts_witness:
  "\<not> contains ''stop'' (hd (interpret_line ''add 1 x2'')) \<and>
   ''x2'' \<in> set (drop 1 (interpret_line ''add 1 x2'')) \<and>
   \<not> is_int_literal ''x2'' \<and> \<not> accepted_indexed ''x2'' \<and>
   interpret_loop \<lparr>instruction_to_opcode_dict = Map.empty, log_severity = PyBool False\<rparr>
     \<lparr>output_file = [''w''], data_object = [''d'']\<rparr> [''add 1 x2'', ''add 1 2''] =
   (\<lparr>output_file = [''w''], data_object = [''d'']\<rparr>, Some ValueError)"
proof -
  have h1: "\<not> contains ''stop'' (hd (interpret_line ''add 1 x2''))" by code_simp
  have h2: "''x2'' \<in> set (drop 1 (interpret_line ''add 1 x2''))" by code_simp
  have h3: "\<not> is_int_literal ''x2''" by code_simp
  have h4: "\<not> accepted_indexed ''x2''" by code_simp
  from bad_operand_aborts [OF h1 h2 h3 h4] h1 h2 h3 h4 show ?thesis by blast
qed

text \<open>
  The claim as written fails: \<open>2(3))\<close> and \<open>1(4)(x\<close> are neither integer literals nor of
  the form \<open>R(O)\<close>, yet the indexed branch takes them and the run goes on.
\<close>

theorem bad_operand_counterexample:
  "\<not> is_int_literal ''2(3))'' \<and> \<not> is_indexed_form ''2(3))'' \<and>
   \<not> is_int_literal ''1(4)(x'' \<and> \<not> is_indexed_form ''1(4)(x'' \<and>
   encode_operand ''2(3))'' = Inr (''0000010'' @ ''0000011'') \<and>
   main False [''ld rt, d(ra)'' @ [CHR 0x09] @ ''00110100''] [''ld 2(3))'', ''ld 1(4)(x''] =
   Inr (\<lparr>output_file = [''00000000000011010000000100000011'' @ [CHR 0x0A],
                         ''00000000000011010000000010000100'' @ [CHR 0x0A]],
          data_object = [''00000000000011010000000100000011'' @ [CHR 0x09] @ ''ld 2(3))'',
                         ''00000000000011010000000010000100'' @ [CHR 0x09] @ ''ld 1(4)(x'']\<rparr>,
        None)"
  by code_simp

end
